theory Spec2Isabelle
  imports Complex_Main "HOL-Library.Word"
begin

section \<open>Point set smoothing: \<open>pca_smooth_point_set.h\<close>\<close>

text \<open>
  The header is a template over a geometric kernel, a KD-tree and a point property map.
  The kernel's point type is the type variable \<open>'p\<close>, the tree type is \<open>'t\<close>, the plane
  type is \<open>'pl\<close>. The four operations the header calls and does not define (the tree's
  constructor, \<open>Orthogonal_k_neighbor_search\<close>, \<open>linear_least_squares_fitting_3\<close> and
  \<open>Plane_3::projection\<close>) are fields of a record that every function takes as its first
  argument. The tree constructor receives the positions by value: the tree owns what it
  was given and never sees the container again.

  \<open>unsigned int\<close> is a 32-bit word: \<open>k + 1\<close> wraps around at \<open>2 ^ 32\<close>.

  \<open>points.reserve(k+1)\<close> allocates room for \<open>k + 1\<close> points before the search is made. The
  allocation throws \<open>std::length_error\<close> when the size is above the vector's \<open>max_size()\<close>
  and \<open>std::bad_alloc\<close> when the memory is not there; whether it does depends on the
  machine, so its outcome is a field of the record too (\<open>None\<close> when it returns).
\<close>

type_synonym unsigned_int = "32 word"

datatype std_exception = Length_error | Bad_alloc

record ('p, 't, 'pl) geometry =
  allocate :: "unsigned_int \<Rightarrow> std_exception option"
  kd_tree :: "'p list \<Rightarrow> 't"
  neighbor_search :: "'t \<Rightarrow> 'p \<Rightarrow> unsigned_int \<Rightarrow> 'p list"
  linear_least_squares_fitting_3 :: "'p list \<Rightarrow> 'pl"
  projection :: "'pl \<Rightarrow> 'p \<Rightarrow> 'p"

text \<open>
  Modelled from the spec: \<open>CGAL_point_set_processing_precondition\<close> is defined in
  \<open>point_set_processing_assertions.h\<close>, which is not among the sources. The spec treats a
  violated precondition as fatal for the whole call, so a failed check ends the call with
  an error value that names the checked expression. An exception that nothing in the header
  catches ends the call as well.
\<close>

datatype failure =
    First_ne_beyond    \<comment> \<open>\<open>first != beyond\<close>\<close>
  | K_ge_2             \<comment> \<open>\<open>k >= 2\<close>\<close>
  | Points_size_ge_1   \<comment> \<open>\<open>points.size() >= 1\<close>\<close>
  | Thrown std_exception

text \<open>
  \<open>std::vector::reserve(n)\<close> on the empty vector \<open>points\<close>: there is nothing to do for
  \<open>n = 0\<close>, and an allocation otherwise.
\<close>

definition reserve :: "('p, 't, 'pl) geometry \<Rightarrow> unsigned_int \<Rightarrow> std_exception option" where
  "reserve G n = (if n = 0 then None else allocate G n)"

text \<open>
  The gathering loop of \<open>pca_smooth_point\<close>: \<open>i\<close> counts from 0 while \<open>i < k + 1\<close>; the
  third argument is what is left of the search's result range, the fourth is the vector
  \<open>points\<close>. The loop leaves early when the range is exhausted.
\<close>

fun gather :: "unsigned_int \<Rightarrow> unsigned_int \<Rightarrow> 'p list \<Rightarrow> 'p list \<Rightarrow> 'p list" where
  "gather bound i search_iterator points =
     (if i < bound then
        (case search_iterator of
           [] \<Rightarrow> points
         | p # rest \<Rightarrow> gather bound (i + 1) rest (points @ [p]))
      else points)"

definition pca_smooth_point ::
  "('p, 't, 'pl) geometry \<Rightarrow> 'p \<Rightarrow> 't \<Rightarrow> unsigned_int \<Rightarrow> failure + 'p" where
  "pca_smooth_point G query tree k =
     (case reserve G (k + 1) of
        Some exception \<Rightarrow> Inl (Thrown exception)
      | None \<Rightarrow>
          (let points = gather (k + 1) 0 (neighbor_search G tree query (k + 1)) [] in
           if 1 \<le> length points
           then Inr (projection G (linear_least_squares_fitting_3 G points) query)
           else Inl Points_size_ge_1))"

text \<open>
  An element of the input range holds a position and whatever else the caller stores with
  it (a normal, for instance); the point property map gives a reference to the position.
\<close>

record ('p, 'a) element =
  position :: 'p
  attributes :: 'a

text \<open>
  The main loop. The container is a list indexed by the iterator \<open>it\<close>, which runs from
  \<open>first\<close> (index 0) to \<open>beyond\<close> (the length), so that \<open>it != beyond\<close> is
  \<open>it < length xs\<close>. The query is read from the container at \<open>it\<close> and the result is
  written back there. The state is returned with the outcome, so that what a failed call
  leaves behind is visible.
\<close>

function smooth_loop ::
  "('p, 't, 'pl) geometry \<Rightarrow> 't \<Rightarrow> unsigned_int \<Rightarrow> nat \<Rightarrow> ('p, 'a) element list
     \<Rightarrow> (failure + unit) \<times> ('p, 'a) element list" where
  "smooth_loop G tree k it xs =
     (if it < length xs then
        (case pca_smooth_point G (position (xs ! it)) tree k of
           Inl e \<Rightarrow> (Inl e, xs)
         | Inr q \<Rightarrow> smooth_loop G tree k (it + 1) (xs[it := (xs ! it)\<lparr>position := q\<rparr>]))
      else (Inr (), xs))"
  by pat_completeness auto
termination
  by (relation "measure (\<lambda>(G, tree, k, it, xs). length xs - it)") auto

definition pca_smooth_point_set ::
  "('p, 't, 'pl) geometry \<Rightarrow> ('p, 'a) element list \<Rightarrow> unsigned_int
     \<Rightarrow> (failure + unit) \<times> ('p, 'a) element list" where
  "pca_smooth_point_set G xs k =
     (if xs = [] then (Inl First_ne_beyond, xs)
      else if k < 2 then (Inl K_ge_2, xs)
      else smooth_loop G (kd_tree G (map position xs)) k 0 xs)"

text \<open>
  The neighbourhood a query is fitted to: what the gathering loop of \<open>pca_smooth_point\<close>
  leaves in \<open>points\<close>.
\<close>

definition neighborhood :: "('p, 't, 'pl) geometry \<Rightarrow> 't \<Rightarrow> 'p \<Rightarrow> unsigned_int \<Rightarrow> 'p list" where
  "neighborhood G tree query k = gather (k + 1) 0 (neighbor_search G tree query (k + 1)) []"

text \<open>The position \<open>pca_smooth_point\<close> returns when its neighbourhood is not empty.\<close>

definition plane_projection :: "('p, 't, 'pl) geometry \<Rightarrow> 't \<Rightarrow> unsigned_int \<Rightarrow> 'p \<Rightarrow> 'p" where
  "plane_projection G tree k query =
     projection G (linear_least_squares_fitting_3 G (neighborhood G tree query k)) query"

subsection \<open>A two-phase smoother, for comparison\<close>

text \<open>
  The read-then-write variant the design notes describe: the read phase issues every
  neighbour query on the original positions and keeps the results in a buffer, the write
  phase then stores the buffer into the container. A failed query ends the call before
  anything is written.
\<close>

fun read_phase ::
  "('p, 't, 'pl) geometry \<Rightarrow> 't \<Rightarrow> unsigned_int \<Rightarrow> 'p list \<Rightarrow> failure + 'p list" where
  "read_phase G tree k [] = Inr []"
| "read_phase G tree k (p # ps) =
     (case pca_smooth_point G p tree k of
        Inl e \<Rightarrow> Inl e
      | Inr q \<Rightarrow> (case read_phase G tree k ps of Inl e \<Rightarrow> Inl e | Inr qs \<Rightarrow> Inr (q # qs)))"

fun write_phase :: "('p, 'a) element list \<Rightarrow> 'p list \<Rightarrow> ('p, 'a) element list" where
  "write_phase (x # xs) (q # qs) = x\<lparr>position := q\<rparr> # write_phase xs qs"
| "write_phase xs qs = xs"

definition two_phase_smooth_point_set ::
  "('p, 't, 'pl) geometry \<Rightarrow> ('p, 'a) element list \<Rightarrow> unsigned_int
     \<Rightarrow> (failure + unit) \<times> ('p, 'a) element list" where
  "two_phase_smooth_point_set G xs k =
     (if xs = [] then (Inl First_ne_beyond, xs)
      else if k < 2 then (Inl K_ge_2, xs)
      else (case read_phase G (kd_tree G (map position xs)) k (map position xs) of
              Inl e \<Rightarrow> (Inl e, xs)
            | Inr buffer \<Rightarrow> (Inr (), write_phase xs buffer)))"

subsection \<open>The neighbour query of the spec, and one instance of the parameters\<close>

text \<open>
  Modelled from the spec: \<open>Orthogonal_k_neighbor_search\<close> and \<open>Kd_tree\<close> are not among the
  sources. The spec's neighbour query returns up to \<open>count\<close> points and fewer only when the
  cloud is small: as many as asked for, or all the points of the cloud.
\<close>

definition search_returns_min :: "('p, 't, 'pl) geometry \<Rightarrow> bool" where
  "search_returns_min G =
     (\<forall>ps q n. length (neighbor_search G (kd_tree G ps) q n) = min (unat n) (length ps))"

text \<open>
  An instance for the closed examples: points with three real coordinates, memory for
  \<open>2 ^ 20\<close> points in one vector, a tree that is the list of its points, a search that sorts
  them by squared distance to the query, and the least-squares horizontal plane (the plane
  at the mean height of the neighbourhood).
\<close>

type_synonym point_3 = "real \<times> real \<times> real"

fun squared_distance :: "point_3 \<Rightarrow> point_3 \<Rightarrow> real" where
  "squared_distance (x, y, z) (x', y', z') =
     (x - x') * (x - x') + (y - y') * (y - y') + (z - z') * (z - z')"

fun height :: "point_3 \<Rightarrow> real" where
  "height (x, y, z) = z"

fun at_height :: "real \<Rightarrow> point_3 \<Rightarrow> point_3" where
  "at_height h (x, y, z) = (x, y, h)"

definition horizontal_geometry :: "(point_3, point_3 list, real) geometry" where
  "horizontal_geometry =
     \<lparr>allocate = (\<lambda>n. if unat n \<le> 1048576 then None else Some Bad_alloc),
      kd_tree = (\<lambda>ps. ps),
      neighbor_search = (\<lambda>tree q n. take (unat n) (sort_key (squared_distance q) tree)),
      linear_least_squares_fitting_3 = (\<lambda>ps. sum_list (map height ps) / of_nat (length ps)),
      projection = at_height\<rparr>"

definition cloud :: "(point_3, bool) element list" where
  "cloud = [\<lparr>position = (0, 0, 0), attributes = True\<rparr>,
            \<lparr>position = (1, 0, 3), attributes = False\<rparr>,
            \<lparr>position = (0, 2, 6), attributes = True\<rparr>,
            \<lparr>position = (10, 10, 9), attributes = False\<rparr>]"

section \<open>The normal estimation test: \<open>normal_estimation_test.cpp\<close>\<close>

text \<open>
  \<open>int\<close> is a 32-bit word read as two's complement (through \<open>sint\<close>). The vectors of the
  spec are triples of reals.
\<close>

type_synonym int32 = "32 word"
type_synonym vector_3 = "real \<times> real \<times> real"

definition EXIT_SUCCESS :: int32 where
  "EXIT_SUCCESS = 0"

definition EXIT_FAILURE :: int32 where
  "EXIT_FAILURE = 1"

fun scalar_product :: "vector_3 \<Rightarrow> vector_3 \<Rightarrow> real" where
  "scalar_product (x, y, z) (x', y', z') = x * x' + y * y' + z * z'"

fun opposite :: "vector_3 \<Rightarrow> vector_3" where
  "opposite (x, y, z) = (- x, - y, - z)"

text \<open>
  Modelled from the spec: \<open>Orientable_normal_3\<close> is declared in a header that is not among
  the sources. The spec's normal is a vector with a boolean \<open>oriented\<close> flag. The type of the
  vector is a parameter: triples of reals for the spec's propagator, triples of floating
  point numbers for the normals the test receives.
\<close>

record 'v orientable_normal =
  vector :: 'v
  is_oriented :: bool

text \<open>
  The kernel of the test is \<open>Simple_cartesian<float>\<close>, and \<open>norm\<close> is a \<open>double\<close>. A floating
  point number is a real number or NaN here: an operation on NaN gives NaN, the square root
  of a negative number is NaN, and every comparison with NaN is false. Rounding and the
  infinities are not modelled.
\<close>

datatype FT = Number real | NaN

fun float_times :: "FT \<Rightarrow> FT \<Rightarrow> FT" where
  "float_times (Number a) (Number b) = Number (a * b)"
| "float_times a b = NaN"

fun float_plus :: "FT \<Rightarrow> FT \<Rightarrow> FT" where
  "float_plus (Number a) (Number b) = Number (a + b)"
| "float_plus a b = NaN"

fun float_sqrt :: "FT \<Rightarrow> FT" where
  "float_sqrt (Number a) = (if a < 0 then NaN else Number (sqrt a))"
| "float_sqrt NaN = NaN"

fun float_less :: "FT \<Rightarrow> FT \<Rightarrow> bool" where
  "float_less (Number a) (Number b) = (a < b)"
| "float_less a b = False"

text \<open>The value of a number (0 for NaN, which has none).\<close>

fun the_number :: "FT \<Rightarrow> real" where
  "the_number (Number a) = a"
| "the_number NaN = 0"

type_synonym float_vector_3 = "FT \<times> FT \<times> FT"

fun float_scalar_product :: "float_vector_3 \<Rightarrow> float_vector_3 \<Rightarrow> FT" where
  "float_scalar_product (x, y, z) (x', y', z') =
     float_plus (float_plus (float_times x x') (float_times y y')) (float_times z z')"

fun has_NaN :: "float_vector_3 \<Rightarrow> bool" where
  "has_NaN (x, y, z) = (x = NaN \<or> y = NaN \<or> z = NaN)"

subsection \<open>Orientation propagation\<close>

text \<open>
  Modelled from the spec: \<open>orient_normals_minimum_spanning_tree_3\<close> is not among the sources;
  the test only calls it. The spec's propagator (section 4.4) fixes the orientation of a
  reference vertex, then walks the minimum spanning tree from it and, for each vertex
  after the root, flips its normal when the dot product with its parent's normal is
  negative, and marks it oriented; a disconnected graph is handled one component after the
  other. The propagation takes the spanning forest and the order of the walk as a list of
  steps, each the reference vertex of a component or a tree edge from a parent to a child.
  The Riemannian graph and the walk of its minimum spanning tree (step 2 of the section)
  follow below.
\<close>

datatype step = Reference nat | Edge nat nat

datatype orientation_error = EmptyGraph

definition orient_toward ::
  "vector_3 \<Rightarrow> vector_3 orientable_normal \<Rightarrow> vector_3 orientable_normal" where
  "orient_toward d n =
     \<lparr>vector = (if scalar_product (vector n) d < 0 then opposite (vector n) else vector n),
      is_oriented = True\<rparr>"

fun orient_step ::
  "vector_3 option \<Rightarrow> vector_3 orientable_normal list \<Rightarrow> step
     \<Rightarrow> vector_3 orientable_normal list" where
  "orient_step exterior ns (Reference r) =
     ns[r := (case exterior of
                None \<Rightarrow> (ns ! r)\<lparr>is_oriented := True\<rparr>
              | Some d \<Rightarrow> orient_toward d (ns ! r))]"
| "orient_step exterior ns (Edge parent child) =
     ns[child := orient_toward (vector (ns ! parent)) (ns ! child)]"

definition orient_normals ::
  "vector_3 option \<Rightarrow> step list \<Rightarrow> vector_3 orientable_normal list
     \<Rightarrow> orientation_error + vector_3 orientable_normal list" where
  "orient_normals exterior traversal ns =
     (if ns = [] then Inl EmptyGraph else Inr (foldl (orient_step exterior) ns traversal))"

text \<open>
  A walk of a spanning forest over the vertices \<open>0..<n\<close>: a reference vertex has not been
  visited before, an edge leads from a visited vertex to one not visited before.
\<close>

fun valid_traversal :: "nat \<Rightarrow> nat list \<Rightarrow> step list \<Rightarrow> bool" where
  "valid_traversal n visited [] = True"
| "valid_traversal n visited (Reference r # steps) =
     (r < n \<and> r \<notin> set visited \<and> valid_traversal n (r # visited) steps)"
| "valid_traversal n visited (Edge parent child # steps) =
     (parent \<in> set visited \<and> child < n \<and> child \<notin> set visited \<and>
      valid_traversal n (child # visited) steps)"


subsection \<open>The walk of the minimum spanning tree\<close>











subsection \<open>The test's \<open>main\<close>\<close>

text \<open>
  \<open>std::string::find_last_of\<close> gives the last index of the character, or \<open>npos\<close> (here
  \<open>None\<close>); \<open>substr(pos)\<close> throws \<open>std::out_of_range\<close> when \<open>pos\<close> is greater than the size
  of the string, as \<open>npos\<close> always is. Nothing in \<open>main\<close> catches the exception. A failed
  \<open>assert\<close> aborts the program. Incrementing an \<open>int\<close> that holds \<open>INT_MAX\<close> is undefined
  behaviour: the model ends the run there, with \<open>Signed_overflow\<close>.
\<close>

datatype abort = Out_of_range | Assertion_failed | Signed_overflow

fun find_last_of :: "string \<Rightarrow> char \<Rightarrow> nat option" where
  "find_last_of [] c = None"
| "find_last_of (x # s) c =
     (case find_last_of s c of
        Some pos \<Rightarrow> Some (Suc pos)
      | None \<Rightarrow> (if x = c then Some 0 else None))"

definition substr :: "string \<Rightarrow> nat option \<Rightarrow> abort + string" where
  "substr s pos =
     (case pos of
        None \<Rightarrow> Inl Out_of_range
      | Some p \<Rightarrow> (if length s < p then Inl Out_of_range else Inr (drop p s)))"

text \<open>
  The functions of the library the test calls and the sources do not hold: the reader of
  \<open>.xyz\<close> files (\<open>None\<close> when it returns false), the two estimators, and the orientation,
  which returns the normals it was given with their new values.
\<close>

type_synonym Orientable_normal = "float_vector_3 orientable_normal"

record 'p library =
  surface_reconstruction_read_xyz :: "string \<Rightarrow> 'p list option"
  estimate_normals_pca_3 :: "'p list \<Rightarrow> unsigned_int \<Rightarrow> Orientable_normal list"
  estimate_normals_jet_fitting_3 :: "'p list \<Rightarrow> unsigned_int \<Rightarrow> Orientable_normal list"
  orient_normals_minimum_spanning_tree_3 ::
    "'p list \<Rightarrow> Orientable_normal list \<Rightarrow> unsigned_int \<Rightarrow> Orientable_normal list"

text \<open>What \<open>main\<close> writes to \<open>std::cerr\<close> about a file (timings and memory left out).\<close>

datatype message =
    Usage
  | Error_cannot_read_file string
  | Read_file string int32
  | Error_empty_file
  | Error_normals_are_unoriented int32
  | Tool_returned int32

text \<open>
  The condition of the \<open>assert\<close> in the loop that checks the computed normals, on the
  variable \<open>norm\<close> of the source (\<open>nrm\<close> here): \<open>norm > 0.99 || norm < 1.01\<close>.
\<close>

definition unit_vector_assertion :: "FT \<Rightarrow> bool" where
  "unit_vector_assertion nrm = (float_less (Number 0.99) nrm \<or> float_less nrm (Number 1.01))"

text \<open>
  The loop over \<open>computed_normals\<close>; the second argument is the counter
  \<open>unoriented_normals\<close>, which holds \<open>INT_MAX = 2147483647\<close> at most.
\<close>

fun check_computed_normals :: "Orientable_normal list \<Rightarrow> int32 \<Rightarrow> abort + int32" where
  "check_computed_normals [] unoriented_normals = Inr unoriented_normals"
| "check_computed_normals (n # ns) unoriented_normals =
     (let v = vector n; nrm = float_sqrt (float_scalar_product v v) in
      if unit_vector_assertion nrm then
        (if is_oriented n then check_computed_normals ns unoriented_normals
         else if unoriented_normals = 2147483647 then Inl Signed_overflow
         else check_computed_normals ns (unoriented_normals + 1))
      else Inl Assertion_failed)"

text \<open>The normals the test checks for a point set: PCA, cleared, jet fitting, orientation.\<close>

definition compute_normals :: "'p library \<Rightarrow> 'p list \<Rightarrow> unsigned_int \<Rightarrow> Orientable_normal list" where
  "compute_normals L points k =
     (let computed_normals = estimate_normals_pca_3 L points k;
          computed_normals = [];
          computed_normals = computed_normals @ estimate_normals_jet_fitting_3 L points k
      in orient_normals_minimum_spanning_tree_3 L points computed_normals k)"

text \<open>
  The body of the loop over the input files: the new value of \<open>accumulated_fatal_err\<close>, or
  the reason the program never reaches the next file, and the messages written.
\<close>

definition process_file ::
  "'p library \<Rightarrow> unsigned_int \<Rightarrow> string \<Rightarrow> int32 \<Rightarrow> (abort + int32) \<times> message list" where
  "process_file L k input_filename accumulated_fatal_err =
     (case substr input_filename (find_last_of input_filename CHR ''.'') of
        Inl e \<Rightarrow> (Inl e, [])
      | Inr extension \<Rightarrow>
          if extension = ''.xyz'' \<or> extension = ''.XYZ'' then
            (case surface_reconstruction_read_xyz L input_filename of
               None \<Rightarrow> (Inr EXIT_FAILURE, [Error_cannot_read_file input_filename])
             | Some points \<Rightarrow>
                 (let nb_vertices = (word_of_nat (length points) :: int32) in
                  if nb_vertices = 0
                  then (Inr EXIT_FAILURE, [Read_file input_filename nb_vertices, Error_empty_file])
                  else
                    (case check_computed_normals (compute_normals L points k) 0 of
                       Inl e \<Rightarrow> (Inl e, [Read_file input_filename nb_vertices])
                     | Inr unoriented_normals \<Rightarrow>
                         if 0 < sint unoriented_normals
                         then (Inr EXIT_FAILURE,
                               [Read_file input_filename nb_vertices,
                                Error_normals_are_unoriented unoriented_normals])
                         else (Inr accumulated_fatal_err,
                               [Read_file input_filename nb_vertices]))))
          else (Inr EXIT_FAILURE, [Error_cannot_read_file input_filename]))"

datatype exit = Returned int32 | Terminated abort

fun process_files ::
  "'p library \<Rightarrow> unsigned_int \<Rightarrow> string list \<Rightarrow> int32 \<Rightarrow> message list \<Rightarrow> exit \<times> message list" where
  "process_files L k [] accumulated_fatal_err cerr =
     (Returned accumulated_fatal_err, cerr @ [Tool_returned accumulated_fatal_err])"
| "process_files L k (input_filename # argv) accumulated_fatal_err cerr =
     (case process_file L k input_filename accumulated_fatal_err of
        (Inl e, messages) \<Rightarrow> (Terminated e, cerr @ messages)
      | (Inr err, messages) \<Rightarrow> process_files L k argv err (cerr @ messages))"

text \<open>\<open>main\<close>, given \<open>argv[1]\<close> to \<open>argv[argc - 1]\<close>.\<close>

definition main :: "'p library \<Rightarrow> string list \<Rightarrow> exit \<times> message list" where
  "main L argv =
     (if argv = [] then (Returned EXIT_FAILURE, [Usage])
      else process_files L 10 argv EXIT_SUCCESS [])"

text \<open>
  A file fails, in the words of the claims: its name has no extension or one that is not
  \<open>.xyz\<close> or \<open>.XYZ\<close>, it cannot be read, its point set is empty, or one of its normals is
  left unoriented.
\<close>

definition file_fails :: "'p library \<Rightarrow> unsigned_int \<Rightarrow> string \<Rightarrow> bool" where
  "file_fails L k input_filename =
     (case find_last_of input_filename CHR ''.'' of
        None \<Rightarrow> True
      | Some pos \<Rightarrow>
          (drop pos input_filename \<noteq> ''.xyz'' \<and> drop pos input_filename \<noteq> ''.XYZ'') \<or>
          (case surface_reconstruction_read_xyz L input_filename of
             None \<Rightarrow> True
           | Some points \<Rightarrow>
               points = [] \<or> list_ex (\<lambda>n. \<not> is_oriented n) (compute_normals L points k)))"

text \<open>
  The loop over a file's normals runs to its end and \<open>nb_vertices\<close> is the number of
  points: fewer than \<open>2 ^ 32\<close> points, no normal with a NaN component, fewer than \<open>2 ^ 31\<close>
  unoriented normals.
\<close>

definition normals_are_checked :: "'p library \<Rightarrow> unsigned_int \<Rightarrow> string \<Rightarrow> bool" where
  "normals_are_checked L k input_filename =
     (case surface_reconstruction_read_xyz L input_filename of
        None \<Rightarrow> True
      | Some points \<Rightarrow>
          length points < 2 ^ 32 \<and>
          list_all (\<lambda>n. \<not> has_NaN (vector n)) (compute_normals L points k) \<and>
          length (filter (\<lambda>n. \<not> is_oriented n) (compute_normals L points k)) < 2 ^ 31)"

subsection \<open>The library's orientation as the propagator of the spec\<close>




subsection \<open>Data for the closed examples\<close>

definition sample_normals :: "vector_3 orientable_normal list" where
  "sample_normals =
     [\<lparr>vector = (0, 0, 1), is_oriented = False\<rparr>,
      \<lparr>vector = (0, 0, - 1), is_oriented = False\<rparr>,
      \<lparr>vector = (0, 1, - 1), is_oriented = False\<rparr>]"

definition sample_traversal :: "step list" where
  "sample_traversal = [Reference 0, Edge 0 1, Edge 1 2]"




declare gather.simps [simp del]
declare smooth_loop.simps [simp del]


section \<open>Properties of the smoothing pass\<close>

text \<open>
  The gathering loop keeps the first \<open>bound - i\<close> points of the range it is given, so
  \<open>pca_smooth_point\<close> fits the first \<open>k + 1\<close> points of the search's result.
\<close>

lemma unat_succ:
  fixes i :: "32 word"
  assumes "i < bound"
  shows "unat (i + 1) = Suc (unat i)"
proof -
  have "unat i < unat bound" using assms by (simp add: word_less_nat_alt)
  moreover have "unat bound < 2 ^ 32" using unsigned_less [of bound] by simp
  ultimately have "unat i + 1 < 2 ^ 32" by linarith
  then show ?thesis by (simp add: unat_word_ariths)
qed

lemma gather_take:
  "gather bound i it pts = pts @ take (unat bound - unat i) it"
proof (induction it arbitrary: i pts)
  case Nil
  then show ?case by (subst gather.simps) simp
next
  case (Cons p rest)
  show ?case
  proof (cases "i < bound")
    case True
    then have s: "unat (i + 1) = Suc (unat i)"
      by (rule unat_succ)
    from True have lt: "unat i < unat bound" by (simp add: word_less_nat_alt)
    then obtain d where d: "unat bound - unat i = Suc d" by (metis Suc_diff_Suc)
    then have d': "unat bound - Suc (unat i) = d" by simp
    show ?thesis using True Cons.IH [of "i + 1" "pts @ [p]"] s d d'
      by (subst gather.simps) simp
  next
    case False
    then have "unat bound - unat i = 0" by (simp add: word_less_nat_alt)
    with False show ?thesis by (subst gather.simps) simp
  qed
qed

lemma pca_smooth_point_eq:
  "pca_smooth_point G q tree k =
     (case reserve G (k + 1) of
        Some exception \<Rightarrow> Inl (Thrown exception)
      | None \<Rightarrow>
          (let points = take (unat (k + 1)) (neighbor_search G tree q (k + 1)) in
           if points = [] then Inl Points_size_ge_1
           else Inr (projection G (linear_least_squares_fitting_3 G points) q)))"
proof -
  define points where "points = take (unat (k + 1)) (neighbor_search G tree q (k + 1))"
  have g: "gather (k + 1) 0 (neighbor_search G tree q (k + 1)) [] = points"
    by (simp add: gather_take points_def)
  have "(1 \<le> length points) = (points \<noteq> [])"
    by (cases points) simp_all
  then show ?thesis
    unfolding pca_smooth_point_def g Let_def points_def [symmetric] by simp
qed

text \<open>The main loop changes neither the length of the container nor the data beside the positions.\<close>

lemma smooth_loop_frame:
  "length (snd (smooth_loop G tree k it xs)) = length xs \<and>
   map attributes (snd (smooth_loop G tree k it xs)) = map attributes xs"
proof (induction G tree k it xs rule: smooth_loop.induct)
  case (1 G tree k it xs)
  show ?case
  proof (cases "it < length xs")
    case False
    then show ?thesis by (subst smooth_loop.simps, subst (2) smooth_loop.simps) simp
  next
    case True
    show ?thesis
    proof (cases "pca_smooth_point G (position (xs ! it)) tree k")
      case (Inl e)
      with True show ?thesis by (subst smooth_loop.simps, subst (2) smooth_loop.simps) simp
    next
      case (Inr q)
      have "map attributes (xs[it := (xs ! it)\<lparr>position := q\<rparr>]) = map attributes xs"
        using True by (simp add: map_update list_update_same_conv)
      with 1 [OF True Inr] True Inr show ?thesis
        by (subst smooth_loop.simps, subst (2) smooth_loop.simps) simp
    qed
  qed
qed

text \<open>\<open>pca_smooth_point\<close> by its neighbourhood.\<close>

lemma neighborhood_take:
  "neighborhood G tree q k = take (unat (k + 1)) (neighbor_search G tree q (k + 1))"
  by (simp add: neighborhood_def gather_take)

lemma pca_smooth_point_cases:
  "pca_smooth_point G q tree k =
     (case reserve G (k + 1) of
        Some exception \<Rightarrow> Inl (Thrown exception)
      | None \<Rightarrow>
          if neighborhood G tree q k = [] then Inl Points_size_ge_1
          else Inr (plane_projection G tree k q))"
  by (cases "reserve G (k + 1)")
     (simp_all add: pca_smooth_point_eq neighborhood_take plane_projection_def Let_def)

text \<open>
  The main loop from position \<open>it\<close> on, by the read phase and the write phase on the rest of
  the container: the loop reads each query before it overwrites it, so the queries are the
  positions the container held when the loop reached \<open>it\<close>.
\<close>

lemma smooth_loop_read_write:
  "smooth_loop G tree k it xs =
     (case read_phase G tree k (map position (drop it xs)) of
        Inl e \<Rightarrow> (Inl e, snd (smooth_loop G tree k it xs))
      | Inr buffer \<Rightarrow> (Inr (), take it xs @ write_phase (drop it xs) buffer))"
proof (induction G tree k it xs rule: smooth_loop.induct)
  case (1 G tree k it xs)
  show ?case
  proof (cases "it < length xs")
    case False
    then show ?thesis by (subst smooth_loop.simps) simp
  next
    case True
    then have d: "drop it xs = xs ! it # drop (Suc it) xs"
      by (simp add: Cons_nth_drop_Suc)
    show ?thesis
    proof (cases "pca_smooth_point G (position (xs ! it)) tree k")
      case (Inl e)
      with True d show ?thesis
        by (subst smooth_loop.simps, subst (2) smooth_loop.simps) simp
    next
      case (Inr q)
      let ?xs' = "xs[it := (xs ! it)\<lparr>position := q\<rparr>]"
      have step: "smooth_loop G tree k it xs = smooth_loop G tree k (it + 1) ?xs'"
        using True Inr by (subst smooth_loop.simps) simp
      have dr: "drop (it + 1) ?xs' = drop (Suc it) xs" by simp
      have tk: "take (it + 1) ?xs' = take it xs @ [(xs ! it)\<lparr>position := q\<rparr>]"
        using True by (simp add: take_Suc_conv_app_nth)
      show ?thesis
      proof (cases "read_phase G tree k (map position (drop (Suc it) xs))")
        case (Inl e)
        with 1 [OF True Inr] step dr d Inr show ?thesis by simp
      next
        case (Inr buffer)
        with 1 [OF True \<open>pca_smooth_point G (position (xs ! it)) tree k = Inr q\<close>]
          step dr tk d \<open>pca_smooth_point G (position (xs ! it)) tree k = Inr q\<close>
        show ?thesis by simp
      qed
    qed
  qed
qed

lemma read_phase_all:
  "reserve G (k + 1) = None \<Longrightarrow> \<forall>p\<in>set ps. neighborhood G tree p k \<noteq> [] \<Longrightarrow>
   read_phase G tree k ps = Inr (map (plane_projection G tree k) ps)"
  by (induction ps) (simp_all add: pca_smooth_point_cases)

lemma read_phase_Inr:
  "read_phase G tree k ps = Inr buffer \<Longrightarrow>
   \<forall>p\<in>set ps. reserve G (k + 1) = None \<and> neighborhood G tree p k \<noteq> []"
  by (induction ps arbitrary: buffer)
     (auto simp: pca_smooth_point_cases split: if_splits sum.splits option.splits)

lemma write_phase_map:
  "write_phase xs (map f (map position xs)) = map (\<lambda>e. e\<lparr>position := f (position e)\<rparr>) xs"
  by (induction xs) simp_all

lemma search_returns_min_horizontal: "search_returns_min horizontal_geometry"
  by (simp add: search_returns_min_def horizontal_geometry_def min.commute)

lemma read_phase_Inl:
  "read_phase G tree k ps = Inl e \<Longrightarrow> e \<noteq> First_ne_beyond \<and> e \<noteq> K_ge_2"
  by (induction ps) (auto simp: pca_smooth_point_cases split: if_splits sum.splits option.splits)

lemma smooth_loop_status:
  "fst (smooth_loop G tree k it xs) \<noteq> Inl First_ne_beyond \<and>
   fst (smooth_loop G tree k it xs) \<noteq> Inl K_ge_2"
proof (cases "read_phase G tree k (map position (drop it xs))")
  case (Inl e)
  then have "e \<noteq> First_ne_beyond \<and> e \<noteq> K_ge_2" by (rule read_phase_Inl)
  with Inl show ?thesis by (subst smooth_loop_read_write, subst (2) smooth_loop_read_write) simp
next
  case (Inr buffer)
  then show ?thesis by (subst smooth_loop_read_write, subst (2) smooth_loop_read_write) simp
qed

text \<open>
  Every element the loop leaves is the element it found, or that element with the
  smoothing of its own original position.
\<close>

lemma smooth_loop_elements:
  "i < length xs \<Longrightarrow>
   snd (smooth_loop G tree k it xs) ! i = xs ! i \<or>
   (it \<le> i \<and> (\<exists>q. pca_smooth_point G (position (xs ! i)) tree k = Inr q \<and>
                  snd (smooth_loop G tree k it xs) ! i = (xs ! i)\<lparr>position := q\<rparr>))"
proof (induction G tree k it xs rule: smooth_loop.induct)
  case (1 G tree k it xs)
  show ?case
  proof (cases "it < length xs")
    case False
    then show ?thesis by (subst smooth_loop.simps) simp
  next
    case True
    show ?thesis
    proof (cases "pca_smooth_point G (position (xs ! it)) tree k")
      case (Inl e)
      with True show ?thesis by (subst smooth_loop.simps) simp
    next
      case (Inr q)
      let ?xs' = "xs[it := (xs ! it)\<lparr>position := q\<rparr>]"
      have step: "smooth_loop G tree k it xs = smooth_loop G tree k (it + 1) ?xs'"
        using True Inr by (subst smooth_loop.simps) simp
      from "1.prems" have i: "i < length ?xs'" by simp
      note IH = "1.IH" [OF True Inr i]
      show ?thesis
      proof (cases "i = it")
        case True
        with IH \<open>it < length xs\<close> have "snd (smooth_loop G tree k (it + 1) ?xs') ! i = ?xs' ! i"
          by auto
        with True \<open>it < length xs\<close> Inr step show ?thesis by simp
      next
        case False
        then have "?xs' ! i = xs ! i" by simp
        with IH step show ?thesis by auto
      qed
    qed
  qed
qed

text \<open>
  With the neighbour query of the spec, \<open>k + 1\<close> not wrapping to 0 and the memory for
  \<open>k + 1\<close> points, the check \<open>points.size() >= 1\<close> cannot fail on a non-empty range and the
  pass returns normally.
\<close>

lemma search_returns_min_neighborhood:
  assumes "search_returns_min G" and "ps \<noteq> []" and "k + 1 \<noteq> 0"
  shows "neighborhood G (kd_tree G ps) q k \<noteq> []"
proof -
  have "length (neighbor_search G (kd_tree G ps) q (k + 1)) = min (unat (k + 1)) (length ps)"
    using assms(1) by (simp add: search_returns_min_def)
  moreover have "0 < unat (k + 1)" using assms(3) by (simp add: unat_gt_0)
  moreover have "0 < length ps" using assms(2) by simp
  ultimately have "0 < length (neighborhood G (kd_tree G ps) q k)"
    by (simp add: neighborhood_take)
  then show ?thesis by auto
qed

lemma pca_smooth_point_set_total_below_max_k:
  assumes "search_returns_min G" and "xs \<noteq> []" and "2 \<le> k" and "k + 1 \<noteq> 0"
    and "allocate G (k + 1) = None"
  shows "fst (pca_smooth_point_set G xs k) = Inr ()"
proof -
  have r: "reserve G (k + 1) = None" using assms(5) by (simp add: reserve_def)
  have "\<forall>e\<in>set xs. neighborhood G (kd_tree G (map position xs)) (position e) k \<noteq> []"
    using search_returns_min_neighborhood [OF assms(1) _ assms(4)] assms(2) by simp
  then have "\<forall>p\<in>set (map position xs). neighborhood G (kd_tree G (map position xs)) p k \<noteq> []"
    by simp
  with r have "read_phase G (kd_tree G (map position xs)) k (map position xs)
               = Inr (map (plane_projection G (kd_tree G (map position xs)) k) (map position xs))"
    by (rule read_phase_all)
  then have "fst (smooth_loop G (kd_tree G (map position xs)) k 0 xs) = Inr ()"
    by (subst smooth_loop_read_write) simp
  moreover have "\<not> k < 2" using assms(3) by simp
  ultimately show ?thesis using assms(2) by (simp add: pca_smooth_point_set_def)
qed

text \<open>The fields of the instance, and its neighbourhoods.\<close>

lemma horizontal_fields:
  "allocate horizontal_geometry n = (if unat n \<le> 1048576 then None else Some Bad_alloc)"
  "kd_tree horizontal_geometry ps = ps"
  "neighbor_search horizontal_geometry tree q n = take (unat n) (sort_key (squared_distance q) tree)"
  "linear_least_squares_fitting_3 horizontal_geometry ps = sum_list (map height ps) / of_nat (length ps)"
  "projection horizontal_geometry = at_height"
  by (simp_all add: horizontal_geometry_def)

lemma horizontal_neighborhood:
  "neighborhood horizontal_geometry tree q k = take (unat (k + 1)) (sort_key (squared_distance q) tree)"
  by (simp add: neighborhood_take horizontal_geometry_def)

text \<open>
  The pass returns normally exactly when the range is not empty, \<open>k \<ge> 2\<close>, the memory for
  \<open>k + 1\<close> points is there and every query gathers at least one neighbour; it then leaves in
  each element the projection of that element's original position onto the plane fitted to
  its neighbourhood. The neighbourhood of a point is the first \<open>k + 1\<close> points (in
  \<open>unsigned int\<close> arithmetic) of what the search on the tree of the original positions
  returned for it.
\<close>

lemma pca_smooth_point_set_result:
  "((fst (pca_smooth_point_set G xs k) = Inr ()) =
      (xs \<noteq> [] \<and> 2 \<le> k \<and> reserve G (k + 1) = None \<and>
       (\<forall>e\<in>set xs. neighborhood G (kd_tree G (map position xs)) (position e) k \<noteq> [])))
   \<and> (fst (pca_smooth_point_set G xs k) = Inr () \<longrightarrow>
        snd (pca_smooth_point_set G xs k) =
          map (\<lambda>e. e\<lparr>position :=
                 projection G
                   (linear_least_squares_fitting_3 G
                     (neighborhood G (kd_tree G (map position xs)) (position e) k))
                   (position e)\<rparr>) xs)
   \<and> (\<forall>e\<in>set xs.
         neighborhood G (kd_tree G (map position xs)) (position e) k =
           take (unat (k + 1))
             (neighbor_search G (kd_tree G (map position xs)) (position e) (k + 1)))"
proof (cases "xs = [] \<or> k < 2")
  case True
  then show ?thesis
    by (auto simp: pca_smooth_point_set_def neighborhood_take)
next
  case False
  let ?tree = "kd_tree G (map position xs)"
  from False have ip: "pca_smooth_point_set G xs k = smooth_loop G ?tree k 0 xs"
    by (simp add: pca_smooth_point_set_def)
  from False have pre: "xs \<noteq> []" "2 \<le> k" by (simp_all add: not_less)
  show ?thesis
  proof (cases "read_phase G ?tree k (map position xs)")
    case (Inl e)
    then have "fst (smooth_loop G ?tree k 0 xs) = Inl e"
      by (subst smooth_loop_read_write) simp
    moreover have "\<not> (reserve G (k + 1) = None \<and>
                      (\<forall>e\<in>set xs. neighborhood G ?tree (position e) k \<noteq> []))"
    proof
      assume a: "reserve G (k + 1) = None \<and>
                   (\<forall>e\<in>set xs. neighborhood G ?tree (position e) k \<noteq> [])"
      then have "\<forall>p\<in>set (map position xs). neighborhood G ?tree p k \<noteq> []" by simp
      with a have "read_phase G ?tree k (map position xs)
                   = Inr (map (plane_projection G ?tree k) (map position xs))"
        by (intro read_phase_all) simp_all
      with Inl show False by simp
    qed
    ultimately show ?thesis using ip by (auto simp: neighborhood_take)
  next
    case (Inr buffer)
    then have all: "\<forall>p\<in>set (map position xs).
                      reserve G (k + 1) = None \<and> neighborhood G ?tree p k \<noteq> []"
      by (rule read_phase_Inr)
    with pre(1) have r: "reserve G (k + 1) = None" by (cases xs) simp_all
    from all have "\<forall>p\<in>set (map position xs). neighborhood G ?tree p k \<noteq> []" by simp
    with r have "read_phase G ?tree k (map position xs)
                 = Inr (map (plane_projection G ?tree k) (map position xs))"
      by (rule read_phase_all)
    then have "smooth_loop G ?tree k 0 xs
                 = (Inr (), write_phase xs (map (plane_projection G ?tree k) (map position xs)))"
      by (subst smooth_loop_read_write) simp
    then have "smooth_loop G ?tree k 0 xs
                 = (Inr (), map (\<lambda>e. e\<lparr>position := plane_projection G ?tree k (position e)\<rparr>) xs)"
      by (simp only: write_phase_map)
    with all r pre ip show ?thesis
      by (simp add: plane_projection_def neighborhood_take)
  qed
qed

text \<open>
  Four points, \<open>k = 2\<close>: the first three are one another's nearest neighbours (mean height
  3), the fourth is fitted with the third and the second (mean height 6).
\<close>

lemma cloud_smoothed:
  "pca_smooth_point_set horizontal_geometry cloud 2 =
     (Inr (), [\<lparr>position = (0, 0, 3), attributes = True\<rparr>,
               \<lparr>position = (1, 0, 3), attributes = False\<rparr>,
               \<lparr>position = (0, 2, 3), attributes = True\<rparr>,
               \<lparr>position = (10, 10, 6), attributes = False\<rparr>])"
proof -
  have k: "(2::unsigned_int) \<le> 2" by simp
  have ne: "cloud \<noteq> []" by (simp add: cloud_def)
  have r: "reserve horizontal_geometry (2 + 1) = None"
    by (simp add: reserve_def horizontal_fields)
  have nb: "\<forall>e\<in>set cloud.
              neighborhood horizontal_geometry (kd_tree horizontal_geometry (map position cloud))
                (position e) 2 \<noteq> []"
    by (simp add: cloud_def horizontal_neighborhood horizontal_fields)
  from pca_smooth_point_set_result [of horizontal_geometry cloud 2] k ne r nb
  have "fst (pca_smooth_point_set horizontal_geometry cloud 2) = Inr ()"
    and "snd (pca_smooth_point_set horizontal_geometry cloud 2) =
          map (\<lambda>e. e\<lparr>position :=
                 projection horizontal_geometry
                   (linear_least_squares_fitting_3 horizontal_geometry
                     (neighborhood horizontal_geometry
                        (kd_tree horizontal_geometry (map position cloud)) (position e) 2))
                   (position e)\<rparr>) cloud"
    by blast+
  then show ?thesis
    by (simp add: prod_eq_iff cloud_def horizontal_neighborhood horizontal_fields)
qed

text \<open>
  Claim C1, at the input where it fails. With \<open>k = 4294967295\<close>, which is at least 2, the sum
  \<open>k + 1\<close> is 0 in \<open>unsigned int\<close>: on every non-empty range (with any tree, search, fitting
  and memory) the first query gathers no neighbour, the check \<open>points.size() >= 1\<close> fails and
  no position is replaced.
\<close>

theorem pca_smooth_point_set_relocates_nothing_at_max_k:
  "(2 :: unsigned_int) \<le> 4294967295 \<and>
   pca_smooth_point_set G (x # xs) 4294967295 = (Inl Points_size_ge_1, x # xs)"
proof -
  have "pca_smooth_point G (position x) (kd_tree G (map position (x # xs))) 4294967295
          = Inl Points_size_ge_1"
    by (simp add: pca_smooth_point_cases reserve_def neighborhood_take)
  then show ?thesis
    by (simp add: pca_smooth_point_set_def smooth_loop.simps [of _ _ _ 0])
qed

text \<open>
  Claim C3. Once \<open>points.reserve(k+1)\<close> has returned and the search is made: when the search
  returns fewer than \<open>k + 1\<close> points and at least one, \<open>pca_smooth_point\<close> fits the plane to all
  the points returned and projects the query onto it; it fails on the check
  \<open>points.size() >= 1\<close> exactly when no point was gathered, and returns the projection
  whenever one was. The only other way it ends is the exception of \<open>reserve\<close>, thrown before
  the search.
\<close>

theorem pca_smooth_point_premature_ending:
  "(reserve G (k + 1) = None \<and>
    length (neighbor_search G tree q (k + 1)) < unat (k + 1) \<and>
    neighbor_search G tree q (k + 1) \<noteq> [] \<longrightarrow>
      pca_smooth_point G q tree k =
        Inr (projection G (linear_least_squares_fitting_3 G (neighbor_search G tree q (k + 1))) q))
   \<and> ((pca_smooth_point G q tree k = Inl Points_size_ge_1) =
        (reserve G (k + 1) = None \<and> neighborhood G tree q k = []))
   \<and> (reserve G (k + 1) = None \<and> neighborhood G tree q k \<noteq> [] \<longrightarrow>
        pca_smooth_point G q tree k =
          Inr (projection G (linear_least_squares_fitting_3 G (neighborhood G tree q k)) q))
   \<and> ((pca_smooth_point G q tree k = Inl (Thrown exception)) =
        (reserve G (k + 1) = Some exception))"
proof -
  have "pca_smooth_point G q tree k =
          Inr (projection G (linear_least_squares_fitting_3 G (neighbor_search G tree q (k + 1))) q)"
    if "reserve G (k + 1) = None"
      and "length (neighbor_search G tree q (k + 1)) < unat (k + 1)"
      and "neighbor_search G tree q (k + 1) \<noteq> []"
  proof -
    from that(2) have "neighborhood G tree q k = neighbor_search G tree q (k + 1)"
      by (simp add: neighborhood_take)
    with that(1,3) show ?thesis
      by (simp add: pca_smooth_point_cases plane_projection_def)
  qed
  then show ?thesis
    by (cases "reserve G (k + 1)") (simp_all add: pca_smooth_point_cases plane_projection_def)
qed

text \<open>
  Two points for \<open>k = 2\<close>: both are fitted. No point: the check fails. One point and
  \<open>k = 4294967294\<close> on a machine without the memory for \<open>k + 1\<close> points: \<open>reserve\<close> throws.
\<close>

theorem pca_smooth_point_premature_ending_witness:
  "pca_smooth_point horizontal_geometry (0, 0, 0) [(0, 0, 1), (3, 0, 2)] 2 = Inr (0, 0, 3 / 2)
   \<and> pca_smooth_point horizontal_geometry (0, 0, 0) [] 2 = Inl Points_size_ge_1
   \<and> pca_smooth_point horizontal_geometry (1, 2, 3) [(1, 2, 3)] 4294967294 = Inl (Thrown Bad_alloc)"
proof -
  have r: "reserve horizontal_geometry (2 + 1) = None"
    and t: "reserve horizontal_geometry (4294967294 + 1) = Some Bad_alloc"
    by (simp_all add: reserve_def horizontal_fields)
  from r t
    pca_smooth_point_premature_ending
      [of horizontal_geometry 2 "[(0, 0, 1), (3, 0, 2)]" "(0, 0, 0)" Bad_alloc]
    pca_smooth_point_premature_ending [of horizontal_geometry 2 "[]" "(0, 0, 0)" Bad_alloc]
    pca_smooth_point_premature_ending
      [of horizontal_geometry 4294967294 "[(1, 2, 3)]" "(1, 2, 3)" Bad_alloc]
  show ?thesis
    by (simp add: horizontal_fields horizontal_neighborhood)
qed

text \<open>
  Claim C4. Whatever the outcome of the call, the container it leaves has the length of the
  input, and the data stored beside the positions is what it was, element by element.
\<close>
theorem pca_smooth_point_set_frame:
  "length (snd (pca_smooth_point_set G xs k)) = length xs \<and>
   map attributes (snd (pca_smooth_point_set G xs k)) = map attributes xs"
  by (simp add: pca_smooth_point_set_def smooth_loop_frame)

theorem pca_smooth_point_set_frame_witness:
  "length (snd (pca_smooth_point_set horizontal_geometry cloud 2)) = 4 \<and>
   map attributes (snd (pca_smooth_point_set horizontal_geometry cloud 2))
     = [True, False, True, False]"
  using pca_smooth_point_set_frame [of horizontal_geometry cloud 2]
  by (simp add: cloud_def)

text \<open>
  Claim C8. A call on an empty range fails the check \<open>first != beyond\<close>, a call on a
  non-empty range with \<open>k < 2\<close> fails the check \<open>k >= 2\<close>, both with the container
  untouched; a call on a non-empty range with \<open>k \<ge> 2\<close> fails neither of the two.
\<close>
theorem pca_smooth_point_set_entry_checks:
  "(xs = [] \<longrightarrow> pca_smooth_point_set G xs k = (Inl First_ne_beyond, xs))
   \<and> (xs \<noteq> [] \<and> k < 2 \<longrightarrow> pca_smooth_point_set G xs k = (Inl K_ge_2, xs))
   \<and> (xs \<noteq> [] \<and> 2 \<le> k \<longrightarrow>
        fst (pca_smooth_point_set G xs k) \<noteq> Inl First_ne_beyond \<and>
        fst (pca_smooth_point_set G xs k) \<noteq> Inl K_ge_2)"
proof -
  have "fst (pca_smooth_point_set G xs k) \<noteq> Inl First_ne_beyond \<and>
        fst (pca_smooth_point_set G xs k) \<noteq> Inl K_ge_2"
    if "xs \<noteq> []" and "2 \<le> k"
  proof -
    from that(2) have "\<not> k < 2" by simp
    with that(1) have "pca_smooth_point_set G xs k = smooth_loop G (kd_tree G (map position xs)) k 0 xs"
      by (simp add: pca_smooth_point_set_def)
    then show ?thesis
      using smooth_loop_status [of G "kd_tree G (map position xs)" k 0 xs] by simp
  qed
  then show ?thesis by (simp add: pca_smooth_point_set_def)
qed

theorem pca_smooth_point_set_entry_checks_witness:
  "pca_smooth_point_set horizontal_geometry ([] :: (point_3, bool) element list) 10
     = (Inl First_ne_beyond, [])
   \<and> pca_smooth_point_set horizontal_geometry cloud 1 = (Inl K_ge_2, cloud)
   \<and> fst (pca_smooth_point_set horizontal_geometry cloud 2) \<noteq> Inl First_ne_beyond
   \<and> fst (pca_smooth_point_set horizontal_geometry cloud 2) \<noteq> Inl K_ge_2"
proof -
  have ne: "cloud \<noteq> []" by (simp add: cloud_def)
  have "(1::unsigned_int) < 2" and "(2::unsigned_int) \<le> 2" by simp_all
  then show ?thesis
    using ne
      pca_smooth_point_set_entry_checks
        [of "[] :: (point_3, bool) element list" horizontal_geometry 10]
      pca_smooth_point_set_entry_checks [of cloud horizontal_geometry 1]
      pca_smooth_point_set_entry_checks [of cloud horizontal_geometry 2]
    by simp
qed

text \<open>
  Claim C9. The in-place pass and the two-phase smoother end the same way (normally, or on
  the same failed check), and whenever the in-place pass returns normally the two leave
  the same container. Whatever the outcome, every element the in-place pass leaves is the
  original element or the original element with the position \<open>pca_smooth_point\<close> computes
  from its original position and the tree of the original positions: no new position
  depends on a relocation made earlier in the pass.
\<close>

theorem in_place_refines_two_phase:
  "fst (pca_smooth_point_set G xs k) = fst (two_phase_smooth_point_set G xs k)
   \<and> (fst (pca_smooth_point_set G xs k) = Inr () \<longrightarrow>
        pca_smooth_point_set G xs k = two_phase_smooth_point_set G xs k)
   \<and> (\<forall>i<length xs.
        snd (pca_smooth_point_set G xs k) ! i = xs ! i \<or>
        (\<exists>q. pca_smooth_point G (position (xs ! i)) (kd_tree G (map position xs)) k = Inr q \<and>
             snd (pca_smooth_point_set G xs k) ! i = (xs ! i)\<lparr>position := q\<rparr>))"
proof (cases "xs = [] \<or> k < 2")
  case True
  then show ?thesis
    by (auto simp: pca_smooth_point_set_def two_phase_smooth_point_set_def)
next
  case False
  let ?tree = "kd_tree G (map position xs)"
  from False have ip: "pca_smooth_point_set G xs k = smooth_loop G ?tree k 0 xs"
    by (simp add: pca_smooth_point_set_def)
  have elements: "\<forall>i<length xs.
        snd (pca_smooth_point_set G xs k) ! i = xs ! i \<or>
        (\<exists>q. pca_smooth_point G (position (xs ! i)) ?tree k = Inr q \<and>
             snd (pca_smooth_point_set G xs k) ! i = (xs ! i)\<lparr>position := q\<rparr>)"
    unfolding ip using smooth_loop_elements [of _ xs G ?tree k 0] by blast
  show ?thesis
  proof (cases "read_phase G ?tree k (map position xs)")
    case (Inl e)
    then have "fst (smooth_loop G ?tree k 0 xs) = Inl e"
      by (subst smooth_loop_read_write) simp
    with Inl False ip elements show ?thesis
      by (simp add: two_phase_smooth_point_set_def)
  next
    case (Inr buffer)
    then have "smooth_loop G ?tree k 0 xs = (Inr (), write_phase xs buffer)"
      by (subst smooth_loop_read_write) simp
    with Inr False ip elements show ?thesis
      by (simp add: two_phase_smooth_point_set_def)
  qed
qed

theorem in_place_refines_two_phase_witness:
  "pca_smooth_point_set horizontal_geometry cloud 2 = two_phase_smooth_point_set horizontal_geometry cloud 2
   \<and> fst (two_phase_smooth_point_set horizontal_geometry cloud 2) = Inr ()"
proof -
  have "cloud \<noteq> []" by (simp add: cloud_def)
  moreover have "(2::unsigned_int) \<le> 2" and "(2::unsigned_int) + 1 \<noteq> 0" by simp_all
  moreover have "allocate horizontal_geometry (2 + 1) = None" by (simp add: horizontal_fields)
  ultimately have "fst (pca_smooth_point_set horizontal_geometry cloud 2) = Inr ()"
    using search_returns_min_horizontal by (rule pca_smooth_point_set_total_below_max_k [rotated])
  then show ?thesis
    using in_place_refines_two_phase [of horizontal_geometry cloud 2] by simp
qed

text \<open>
  Claim C10, at the input where it fails. With \<open>k = 4294967295\<close> the sum \<open>k + 1\<close> is 0 in
  \<open>unsigned int\<close>: the gathering loop is not entered, and on a range of one element (with any
  tree, search and fitting) the call fails the check \<open>points.size() >= 1\<close>.
\<close>
theorem pca_smooth_point_set_fails_at_max_k:
  "pca_smooth_point_set G [x] 4294967295 = (Inl Points_size_ge_1, [x])"
proof -
  have "neighborhood G (kd_tree G [position x]) (position x) 4294967295 = []"
    by (simp add: neighborhood_take)
  then have "pca_smooth_point G (position x) (kd_tree G [position x]) 4294967295
               = Inl Points_size_ge_1"
    by (simp add: pca_smooth_point_cases reserve_def)
  then show ?thesis
    by (simp add: pca_smooth_point_set_def smooth_loop.simps [of _ _ _ 0])
qed

section \<open>Properties of the orientation propagation\<close>

text \<open>
  After \<open>orient_toward d\<close> a normal has a non-negative dot product with \<open>d\<close>. A step writes
  one normal; on a walk, no later step writes a vertex that was visited, so every edge
  keeps the agreement it was given.
\<close>

lemma scalar_product_opposite: "scalar_product (opposite v) d = - scalar_product v d"
  by (cases v, cases d) simp

lemma orient_toward_agrees: "0 \<le> scalar_product (vector (orient_toward d n)) d"
  by (simp add: orient_toward_def scalar_product_opposite)

lemma scalar_product_commute: "scalar_product v w = scalar_product w v"
  by (cases v, cases w) simp


lemma length_orient_step: "length (orient_step exterior ns s) = length ns"
  by (cases s) simp_all

lemma length_foldl_orient_step: "length (foldl (orient_step exterior) ns steps) = length ns"
  by (induction steps arbitrary: ns) (simp_all add: length_orient_step)

lemma visited_untouched:
  "valid_traversal n visited steps \<Longrightarrow> v \<in> set visited \<Longrightarrow>
   foldl (orient_step exterior) ns steps ! v = ns ! v"
proof (induction steps arbitrary: visited ns)
  case Nil
  then show ?case by simp
next
  case (Cons s steps)
  show ?case
  proof (cases s)
    case (Reference r)
    with Cons.prems have "r \<noteq> v" and "valid_traversal n (r # visited) steps" by auto
    with Cons.IH [of "r # visited" "orient_step exterior ns s"] Cons.prems(2) Reference
    show ?thesis by simp
  next
    case (Edge p c)
    with Cons.prems have "c \<noteq> v" and "valid_traversal n (c # visited) steps" by auto
    with Cons.IH [of "c # visited" "orient_step exterior ns s"] Cons.prems(2) Edge
    show ?thesis by simp
  qed
qed

lemma edges_agree:
  "valid_traversal n visited steps \<Longrightarrow> length ns = n \<Longrightarrow> Edge p c \<in> set steps \<Longrightarrow>
   0 \<le> scalar_product (vector (foldl (orient_step exterior) ns steps ! p))
                        (vector (foldl (orient_step exterior) ns steps ! c))"
proof (induction steps arbitrary: visited ns)
  case Nil
  then show ?case by simp
next
  case (Cons s steps)
  let ?ns1 = "orient_step exterior ns s"
  have len: "length ?ns1 = n" using Cons.prems(2) by (simp add: length_orient_step)
  show ?case
  proof (cases "Edge p c \<in> set steps")
    case True
    show ?thesis
    proof (cases s)
      case (Reference r)
      with Cons.prems(1) have "valid_traversal n (r # visited) steps" by simp
      from Cons.IH [OF this len True] show ?thesis by simp
    next
      case (Edge p' c')
      with Cons.prems(1) have "valid_traversal n (c' # visited) steps" by simp
      from Cons.IH [OF this len True] show ?thesis by simp
    qed
  next
    case False
    with Cons.prems(3) have s: "s = Edge p c" by simp
    with Cons.prems(1) have v: "valid_traversal n (c # visited) steps"
      and p: "p \<in> set visited" and c: "c < n" and pc: "p \<noteq> c" by auto
    have "foldl (orient_step exterior) ?ns1 steps ! p = ?ns1 ! p"
      using visited_untouched [OF v, of p] p by simp
    moreover have "foldl (orient_step exterior) ?ns1 steps ! c = ?ns1 ! c"
      using visited_untouched [OF v, of c] by simp
    moreover have "?ns1 ! p = ns ! p" using s pc by simp
    moreover have "?ns1 ! c = orient_toward (vector (ns ! p)) (ns ! c)"
      using s c Cons.prems(2) by simp
    ultimately show ?thesis
      using orient_toward_agrees [where n = "ns ! c" and d = "vector (ns ! p)"]
      by (simp add: scalar_product_commute)
  qed
qed


lemma sample_normals_oriented:
  "orient_normals None sample_traversal sample_normals =
     Inr [\<lparr>vector = (0, 0, 1), is_oriented = True\<rparr>,
          \<lparr>vector = (0, 0, 1), is_oriented = True\<rparr>,
          \<lparr>vector = (0, - 1, 1), is_oriented = True\<rparr>]"
  by (simp add: orient_normals_def sample_normals_def sample_traversal_def orient_toward_def)

text \<open>
  Claim C5. On a non-empty set of normals and a walk of a spanning forest, the propagation
  returns normals of which, for every edge of the walk, the two at its ends have a
  non-negative dot product.
\<close>

theorem orient_normals_sign_consistency:
  assumes "ns \<noteq> []" and "valid_traversal (length ns) [] traversal"
  shows "\<exists>ns'. orient_normals exterior traversal ns = Inr ns' \<and> length ns' = length ns \<and>
           (\<forall>u v. Edge u v \<in> set traversal \<longrightarrow>
              0 \<le> scalar_product (vector (ns' ! u)) (vector (ns' ! v)))"
  using assms
  by (simp add: orient_normals_def length_foldl_orient_step edges_agree [OF assms(2)])

text \<open>
  Three normals on a chain: the second is flipped towards the first, the third towards
  the flipped second.
\<close>

theorem orient_normals_sign_consistency_witness:
  "orient_normals None sample_traversal sample_normals =
     Inr [\<lparr>vector = (0, 0, 1), is_oriented = True\<rparr>,
          \<lparr>vector = (0, 0, 1), is_oriented = True\<rparr>,
          \<lparr>vector = (0, - 1, 1), is_oriented = True\<rparr>]
   \<and> (\<exists>ns'. orient_normals None sample_traversal sample_normals = Inr ns' \<and>
          0 \<le> scalar_product (vector (ns' ! 0)) (vector (ns' ! 1)) \<and>
          0 \<le> scalar_product (vector (ns' ! 1)) (vector (ns' ! 2)))"
proof -
  have ne: "sample_normals \<noteq> []" by (simp add: sample_normals_def)
  have v: "valid_traversal (length sample_normals) [] sample_traversal"
    by (simp add: sample_normals_def sample_traversal_def)
  have e: "Edge 0 1 \<in> set sample_traversal" "Edge 1 2 \<in> set sample_traversal"
    by (simp_all add: sample_traversal_def)
  note sample_normals_oriented
  moreover from orient_normals_sign_consistency [OF ne v, of None] e
  have "\<exists>ns'. orient_normals None sample_traversal sample_normals = Inr ns' \<and>
          0 \<le> scalar_product (vector (ns' ! 0)) (vector (ns' ! 1)) \<and>
          0 \<le> scalar_product (vector (ns' ! 1)) (vector (ns' ! 2))"
    by blast
  ultimately show ?thesis by blast
qed

section \<open>Properties of the walk of the minimum spanning tree\<close>






















section \<open>Properties of the test's \<open>main\<close>\<close>

text \<open>
  The condition of the assertion holds for every number: it fails only for a norm that is
  NaN, which is the norm of a vector with a NaN component.
\<close>

lemma unit_vector_assertion_number: "unit_vector_assertion (Number x)"
  by (auto simp: unit_vector_assertion_def)

lemma unit_vector_assertion_NaN: "\<not> unit_vector_assertion NaN"
  by (simp add: unit_vector_assertion_def)

lemma float_norm:
  "float_sqrt (float_scalar_product v v) =
     (case v of (Number x, Number y, Number z) \<Rightarrow> Number (sqrt (x * x + y * y + z * z))
      | _ \<Rightarrow> NaN)"
proof (cases v)
  case (fields x y z)
  have nn: "\<not> a * a + b * b + c * c < 0" for a b c :: real
    using zero_le_square [of a] zero_le_square [of b] zero_le_square [of c] by linarith
  show ?thesis
  proof (cases x)
    case NaN
    with fields show ?thesis by simp
  next
    case x: (Number a)
    show ?thesis
    proof (cases y)
      case NaN
      with fields x show ?thesis by simp
    next
      case y: (Number b)
      show ?thesis
      proof (cases z)
        case NaN
        with fields x y show ?thesis by simp
      next
        case (Number c)
        with fields x y nn [of a b c] show ?thesis by simp
      qed
    qed
  qed
qed

lemma unit_vector_assertion_norm:
  "unit_vector_assertion (float_sqrt (float_scalar_product v v)) = (\<not> has_NaN v)"
proof (cases v)
  case (fields x y z)
  show ?thesis
    unfolding float_norm
    by (cases x; cases y; cases z)
       (simp_all add: fields unit_vector_assertion_number unit_vector_assertion_NaN)
qed

text \<open>
  The loop over the normals: without a NaN component and with room in the counter it
  returns the number of unoriented normals; otherwise the run ends in the loop.
\<close>

lemma counter_increment:
  fixes c :: int32
  assumes "unat c < 2 ^ 31" and "c \<noteq> 2147483647"
  shows "unat (c + 1) = Suc (unat c)" and "unat (c + 1) < 2 ^ 31"
proof -
  have "unat c \<noteq> 2147483647"
  proof
    assume "unat c = 2147483647"
    then have "word_of_nat (unat c) = (word_of_nat 2147483647 :: int32)" by simp
    with assms(2) show False by simp
  qed
  with assms(1) have lt: "unat c < 2147483647" by simp
  then have "unat c + 1 < 2 ^ 32" by simp
  then show s: "unat (c + 1) = Suc (unat c)" by (simp add: unat_word_ariths)
  from lt s show "unat (c + 1) < 2 ^ 31" by simp
qed

lemma check_computed_normals_returns:
  "list_all (\<lambda>n. \<not> has_NaN (vector n)) ms \<Longrightarrow>
   unat c + length (filter (\<lambda>n. \<not> is_oriented n) ms) < 2 ^ 31 \<Longrightarrow>
   check_computed_normals ms c = Inr (c + word_of_nat (length (filter (\<lambda>n. \<not> is_oriented n) ms)))"
proof (induction ms arbitrary: c)
  case Nil
  then show ?case by simp
next
  case (Cons n ms)
  from Cons.prems(1) have a: "unit_vector_assertion (float_sqrt (float_scalar_product (vector n) (vector n)))"
    and rest: "list_all (\<lambda>n. \<not> has_NaN (vector n)) ms"
    by (simp_all add: unit_vector_assertion_norm)
  show ?case
  proof (cases "is_oriented n")
    case True
    with Cons.IH [OF rest, of c] Cons.prems(2) a show ?thesis by (simp add: Let_def)
  next
    case False
    with Cons.prems(2) have lt: "unat c < 2147483647" by simp
    then have ne: "c \<noteq> 2147483647" by auto
    from lt have "unat c < 2 ^ 31" by simp
    from counter_increment(1) [OF this ne] Cons.prems(2) False
    have "unat (c + 1) + length (filter (\<lambda>n. \<not> is_oriented n) ms) < 2 ^ 31" by simp
    from Cons.IH [OF rest this] False a ne show ?thesis by (simp add: Let_def add.assoc)
  qed
qed

lemma check_computed_normals_ends:
  "unat c < 2 ^ 31 \<Longrightarrow>
   \<not> list_all (\<lambda>n. \<not> has_NaN (vector n)) ms \<or>
     2 ^ 31 \<le> unat c + length (filter (\<lambda>n. \<not> is_oriented n) ms) \<Longrightarrow>
   \<exists>e. check_computed_normals ms c = Inl e"
proof (induction ms arbitrary: c)
  case Nil
  then show ?case by simp
next
  case (Cons n ms)
  show ?case
  proof (cases "has_NaN (vector n)")
    case True
    then show ?thesis by (simp add: unit_vector_assertion_norm Let_def)
  next
    case False
    then have a: "unit_vector_assertion (float_sqrt (float_scalar_product (vector n) (vector n)))"
      by (simp add: unit_vector_assertion_norm)
    show ?thesis
    proof (cases "is_oriented n")
      case True
      with Cons.prems False have
        "\<not> list_all (\<lambda>n. \<not> has_NaN (vector n)) ms \<or>
           2 ^ 31 \<le> unat c + length (filter (\<lambda>n. \<not> is_oriented n) ms)"
        by simp
      from Cons.IH [OF Cons.prems(1) this] True a show ?thesis by (simp add: Let_def)
    next
      case unoriented: False
      show ?thesis
      proof (cases "c = 2147483647")
        case True
        with unoriented a show ?thesis by (simp add: Let_def)
      next
        case ne: False
        from counter_increment [OF Cons.prems(1) ne]
        have s: "unat (c + 1) = Suc (unat c)" and lt: "unat (c + 1) < 2 ^ 31" by simp_all
        from Cons.prems(2) False unoriented s have
          "\<not> list_all (\<lambda>n. \<not> has_NaN (vector n)) ms \<or>
             2 ^ 31 \<le> unat (c + 1) + length (filter (\<lambda>n. \<not> is_oriented n) ms)"
          by simp
        from Cons.IH [OF lt this] unoriented a ne show ?thesis by (simp add: Let_def)
      qed
    qed
  qed
qed




lemma find_last_of_less: "find_last_of s c = Some p \<Longrightarrow> p < length s"
  by (induction s arbitrary: p) (auto split: option.splits if_splits)

lemma find_last_of_None: "(find_last_of s c = None) = (c \<notin> set s)"
  by (induction s) (auto split: option.splits)

text \<open>Sizes below \<open>2 ^ 31\<close> are read back from an \<open>int\<close> unchanged.\<close>

lemma sint_count:
  assumes "n < 2 ^ 31"
  shows "sint (word_of_nat n :: int32) = int n"
proof -
  have "- (2 ^ 31) \<le> int n" by (rule order_trans [of _ 0]) simp_all
  moreover have "int n < 2 ^ 31" using assms by simp
  ultimately have "signed_take_bit 31 (int n) = int n"
    by (simp add: signed_take_bit_int_eq_self)
  then show ?thesis by (simp add: signed_of_nat)
qed

lemma nb_vertices_zero:
  assumes "n < 2 ^ 32"
  shows "((word_of_nat n :: int32) = 0) = (n = 0)"
proof -
  have "n = 0" if "(2::nat) ^ 32 dvd n"
  proof (rule ccontr)
    assume "n \<noteq> 0"
    with that have "(2::nat) ^ 32 \<le> n" by (intro dvd_imp_le) simp_all
    with assms show False by simp
  qed
  then show ?thesis
    by (auto simp: word_of_nat_eq_0_iff)
qed

text \<open>
  \<open>substr\<close> at the position \<open>find_last_of\<close> gives: it throws exactly when the character
  does not occur.
\<close>

lemma substr_find_last_of:
  "substr s (find_last_of s c) =
     (case find_last_of s c of None \<Rightarrow> Inl Out_of_range | Some pos \<Rightarrow> Inr (drop pos s))"
  by (auto simp: substr_def split: option.splits dest: find_last_of_less)

lemma compute_normals_eq:
  "compute_normals L points k =
     orient_normals_minimum_spanning_tree_3 L points (estimate_normals_jet_fitting_3 L points k) k"
  by (simp add: compute_normals_def)

lemma process_file_cases:
  "process_file L k f acc =
     (case find_last_of f CHR ''.'' of
        None \<Rightarrow> (Inl Out_of_range, [])
      | Some pos \<Rightarrow>
          if drop pos f = ''.xyz'' \<or> drop pos f = ''.XYZ'' then
            (case surface_reconstruction_read_xyz L f of
               None \<Rightarrow> (Inr EXIT_FAILURE, [Error_cannot_read_file f])
             | Some points \<Rightarrow>
                 if (word_of_nat (length points) :: int32) = 0
                 then (Inr EXIT_FAILURE, [Read_file f (word_of_nat (length points)), Error_empty_file])
                 else
                   (case check_computed_normals
                           (orient_normals_minimum_spanning_tree_3 L points
                              (estimate_normals_jet_fitting_3 L points k) k) 0 of
                      Inl e \<Rightarrow> (Inl e, [Read_file f (word_of_nat (length points))])
                    | Inr unoriented_normals \<Rightarrow>
                        if 0 < sint unoriented_normals
                        then (Inr EXIT_FAILURE,
                              [Read_file f (word_of_nat (length points)),
                               Error_normals_are_unoriented unoriented_normals])
                        else (Inr acc, [Read_file f (word_of_nat (length points))])))
          else (Inr EXIT_FAILURE, [Error_cannot_read_file f]))"
  by (simp add: process_file_def substr_find_last_of compute_normals_eq Let_def
           split: option.splits)


lemma count_positive:
  assumes "length (filter (\<lambda>n. \<not> is_oriented n) ms) < 2 ^ 31"
  shows "(0 < sint (word_of_nat (length (filter (\<lambda>n. \<not> is_oriented n) ms)) :: int32))
           = list_ex (\<lambda>n. \<not> is_oriented n) ms"
  using sint_count [OF assms] by (simp add: filter_empty_conv list_ex_iff)

text \<open>
  On file names with a dot and normals that are checked to the end, the loop body sets the
  accumulated status to \<open>EXIT_FAILURE\<close> exactly when the file fails, and \<open>main\<close> returns a
  non-zero status exactly when it was given no file or one of the files fails.
\<close>

lemma process_file_fails:
  assumes "CHR ''.'' \<in> set f" and "normals_are_checked L k f"
  shows "\<exists>messages. process_file L k f acc =
           (Inr (if file_fails L k f then EXIT_FAILURE else acc), messages)"
proof -
  from assms(1) have "find_last_of f CHR ''.'' \<noteq> None" by (simp add: find_last_of_None)
  then obtain pos where pos: "find_last_of f CHR ''.'' = Some pos" by auto
  show ?thesis
  proof (cases "surface_reconstruction_read_xyz L f")
    case None
    with pos show ?thesis by (simp add: process_file_cases file_fails_def)
  next
    case (Some points)
    let ?ms = "orient_normals_minimum_spanning_tree_3 L points
                 (estimate_normals_jet_fitting_3 L points k) k"
    from Some assms(2) have l: "length points < 2 ^ 32"
      and n: "list_all (\<lambda>n. \<not> has_NaN (vector n)) ?ms"
      and m: "length (filter (\<lambda>n. \<not> is_oriented n) ?ms) < 2 ^ 31"
      by (simp_all add: normals_are_checked_def compute_normals_eq)
    have z: "((word_of_nat (length points) :: int32) = 0) = (points = [])"
      using nb_vertices_zero [OF l] by simp
    have c: "check_computed_normals ?ms 0 =
               Inr (word_of_nat (length (filter (\<lambda>n. \<not> is_oriented n) ?ms)))"
      using check_computed_normals_returns [OF n, of 0] m by simp
    show ?thesis
      by (simp add: process_file_cases file_fails_def pos Some z c count_positive [OF m]
            compute_normals_eq)
  qed
qed

lemma process_files_returns:
  assumes "\<forall>f\<in>set argv. CHR ''.'' \<in> set f \<and> normals_are_checked L k f"
  shows "\<exists>cerr'. process_files L k argv acc cerr =
           (Returned (if \<exists>f\<in>set argv. file_fails L k f then EXIT_FAILURE else acc), cerr')"
  using assms
proof (induction argv arbitrary: acc cerr)
  case Nil
  then show ?case by simp
next
  case (Cons f argv)
  then have "CHR ''.'' \<in> set f" and "normals_are_checked L k f" by simp_all
  from process_file_fails [OF this, of acc]
  obtain messages where
    pf: "process_file L k f acc = (Inr (if file_fails L k f then EXIT_FAILURE else acc), messages)"
    by blast
  from Cons.prems have rest: "\<forall>f\<in>set argv. CHR ''.'' \<in> set f \<and> normals_are_checked L k f"
    by simp
  from Cons.IH [OF rest, of "if file_fails L k f then EXIT_FAILURE else acc" "cerr @ messages"]
  obtain cerr' where
    "process_files L k argv (if file_fails L k f then EXIT_FAILURE else acc) (cerr @ messages) =
       (Returned (if \<exists>f\<in>set argv. file_fails L k f then EXIT_FAILURE
                  else if file_fails L k f then EXIT_FAILURE else acc), cerr')"
    by blast
  with pf show ?case by auto
qed

lemma main_returns_failure_iff:
  assumes "\<forall>f\<in>set argv. CHR ''.'' \<in> set f \<and> normals_are_checked L 10 f"
  shows "\<exists>status cerr. main L argv = (Returned status, cerr) \<and>
           (status \<noteq> 0) = (argv = [] \<or> (\<exists>f\<in>set argv. file_fails L 10 f))"
proof (cases "argv = []")
  case True
  then show ?thesis by (simp add: main_def EXIT_FAILURE_def)
next
  case False
  from process_files_returns [OF assms, of EXIT_SUCCESS "[]"] False
  show ?thesis by (auto simp: main_def EXIT_FAILURE_def EXIT_SUCCESS_def)
qed

text \<open>
  Claim C7, at the input where it fails. Given a file name without a dot, \<open>find_last_of\<close>
  gives \<open>npos\<close> and \<open>substr\<close> throws: \<open>main\<close> neither returns a status nor reaches the
  next file, whatever the library does.
\<close>

theorem main_terminates_on_name_without_dot:
  "main L [''points'', ''sphere.xyz''] = (Terminated Out_of_range, [])"
  by (simp add: main_def process_file_def substr_def)

text \<open>
  Claim C2, at the input where it fails. The normal \<open>(2, 0, 0)\<close> has magnitude 2, outside
  \<open>[0.99, 1.01]\<close>; the condition \<open>norm > 0.99 || norm < 1.01\<close> holds for it, and the loop
  over the computed normals goes on to its end.
\<close>

theorem unit_vector_assertion_passes_at_norm_2:
  "float_sqrt (float_scalar_product (Number 2, Number 0, Number 0) (Number 2, Number 0, Number 0))
     = Number 2
   \<and> unit_vector_assertion
       (float_sqrt (float_scalar_product (Number 2, Number 0, Number 0)
                      (Number 2, Number 0, Number 0)))
   \<and> \<not> (0.99 \<le> the_number
                    (float_sqrt (float_scalar_product (Number 2, Number 0, Number 0)
                                   (Number 2, Number 0, Number 0))) \<and>
          the_number
            (float_sqrt (float_scalar_product (Number 2, Number 0, Number 0)
                           (Number 2, Number 0, Number 0))) \<le> 1.01)
   \<and> check_computed_normals [\<lparr>vector = (Number 2, Number 0, Number 0), is_oriented = True\<rparr>] 0
       = Inr 0"
proof -
  have "sqrt 4 = 2" using real_sqrt_abs [of 2] by simp
  then have
    "float_sqrt (float_scalar_product (Number 2, Number 0, Number 0) (Number 2, Number 0, Number 0))
       = Number 2"
    by simp
  then show ?thesis by (simp add: unit_vector_assertion_def)
qed


















end
